theory Spec2Isabelle
  imports Main "HOL-Library.Word"
begin

unbundle bit_operations_syntax

section \<open>The asynchronous logger of \<open>log/log.go\<close>\<close>

text \<open>
  The file \<open>log/log.go\<close> holds two variants of the package; the embedding follows the
  first one (the one with \<open>colorStart\<close>, \<open>colorStop\<close> and the \<open>ln\<close> flag of
  \<open>Output\<close>). Go's \<open>int\<close> is a 64-bit machine integer, so a severity is a
  \<open>64 word\<close>; a Go string and a \<open>[]byte\<close> are byte sequences, so both are
  \<open>string\<close>.
\<close>

subsection \<open>Severity levels and constants\<close>

type_synonym LogLever = "64 word"

definition LevelInfo :: LogLever where
  "LevelInfo = 1"

definition LevelDebug :: LogLever where
  "LevelDebug = push_bit 1 1"

definition LevelWarn :: LogLever where
  "LevelWarn = push_bit 2 1"

definition LevelError :: LogLever where
  "LevelError = push_bit 3 1"

definition LevelAll :: LogLever where
  "LevelAll = LevelInfo OR LevelDebug OR LevelWarn OR LevelError"

definition maxBufPoolSize :: nat where
  "maxBufPoolSize = 16"

text \<open>The escape sequences; \<open>CHR 0x1B\<close> is the byte \<open>\033\<close>.\<close>

definition NONE :: string where
  "NONE = CHR 0x1B # ''[m''"

definition RED :: string where
  "RED = CHR 0x1B # ''[0;32;31m''"

definition GREEN :: string where
  "GREEN = CHR 0x1B # ''[0;32;32m''"

definition YELLOW :: string where
  "YELLOW = CHR 0x1B # ''[1;33m''"

subsection \<open>Severity label\<close>

text \<open>
  \<open>levelName\<close> is a tagless \<open>switch\<close>: the first case whose condition holds is taken.
\<close>

definition levelName :: "LogLever \<Rightarrow> string" where
  "levelName level =
     (if level AND LevelDebug = LevelDebug then ''DEBUG''
      else if level AND LevelInfo = LevelInfo then ''INFO''
      else if level AND LevelWarn = LevelWarn then ''WARN''
      else if level AND LevelError = LevelError then ''ERROR''
      else '''')"

subsection \<open>Buffers, the handler and the channels\<close>

text \<open>
  A \<open>[]byte\<close> is a slice: its bytes up to its length, and its capacity. \<open>append\<close>
  keeps the capacity while the bytes fit; beyond it the Go runtime chooses a larger one,
  modelled as the least that fits (nothing below depends on that choice).
\<close>

record Buffer =
  data :: string
  capacity :: nat

definition append_bytes :: "Buffer \<Rightarrow> string \<Rightarrow> Buffer" where
  "append_bytes buf s =
     \<lparr>data = data buf @ s, capacity = max (capacity buf) (length (data buf) + length s)\<rparr>"

text \<open>
  Modelled from the spec: the \<open>Handler\<close> interface and its implementations (the stream
  handler and the time-rotating file handler) are not part of the given sources. The spec
  describes a handler as a sink with two capabilities, writing a rendered record and
  closing; its errors are ignored by the logger. The model is an instrumented handler: it
  records every write it receives, in order, and counts the calls of its close.
\<close>

datatype sink = Stdout | RotatingFile string

record Handler =
  sink :: sink
  written :: "string list"
  close_calls :: nat

definition handler_Write :: "Buffer \<Rightarrow> Handler \<Rightarrow> Handler" where
  "handler_Write buf h = h\<lparr>written := written h @ [data buf]\<rparr>"

definition handler_Close :: "Handler \<Rightarrow> Handler" where
  "handler_Close h = h\<lparr>close_calls := Suc (close_calls h)\<rparr>"

definition NewStreamHandler :: "sink \<Rightarrow> Handler" where
  "NewStreamHandler w = \<lparr>sink = w, written = [], close_calls = 0\<rparr>"

definition newStdHandler :: Handler where
  "newStdHandler = NewStreamHandler Stdout"

text \<open>
  \<open>l.msg\<close> is a buffered Go channel of capacity 1024. A send puts the value into the
  channel's buffer while there is room; on a full buffer the sending goroutine parks, with
  its value, in the channel's queue of senders. A receive takes the oldest buffered value
  and, when a sender is parked, moves the first parked value into the buffer (waking that
  sender). \<open>len(l.msg)\<close> is the number of buffered values.
\<close>

record msg_chan =
  queue :: "Buffer list"
  sendq :: "Buffer list"

definition msgCap :: nat where
  "msgCap = 1024"

definition make_chan :: msg_chan where
  "make_chan = \<lparr>queue = [], sendq = []\<rparr>"

definition chan_send :: "Buffer \<Rightarrow> msg_chan \<Rightarrow> msg_chan" where
  "chan_send buf c =
     (if length (queue c) < msgCap then c\<lparr>queue := queue c @ [buf]\<rparr>
      else c\<lparr>sendq := sendq c @ [buf]\<rparr>)"

definition chan_recv :: "msg_chan \<Rightarrow> (Buffer \<times> msg_chan) option" where
  "chan_recv c =
     (case queue c of
        [] \<Rightarrow> None
      | buf # q \<Rightarrow>
          (case sendq c of
             [] \<Rightarrow> Some (buf, c\<lparr>queue := q\<rparr>)
           | s # ss \<Rightarrow> Some (buf, \<lparr>queue = q @ [s], sendq = ss\<rparr>)))"

text \<open>
  \<open>l.quit\<close> carries no values: it is open, closed, or the nil channel. A receive on it is
  ready exactly when it is closed; closing a closed or nil channel panics.
\<close>

datatype quit_chan = Open | Closed | Nil

subsection \<open>The logger\<close>

text \<open>
  The embedded mutex only makes \<open>popBuf\<close> and \<open>putBuf\<close> atomic; every operation of the
  model is one atomic step, so it has no field. \<open>wg\<close> is the counter of the wait group:
  1 while the goroutine running \<open>run\<close> is alive, 0 once it has returned.
\<close>

record Logger =
  level :: LogLever
  flag :: int
  handler :: Handler
  quit :: quit_chan
  msg :: msg_chan
  bufs :: "Buffer list"
  wg :: int
  closed :: bool

text \<open>
  \<open>New\<close>: after \<open>go l.run()\<close> the new goroutine waits in its \<open>select\<close>, where neither
  channel is ready, so the state returned is the one built.
\<close>

definition New :: "Handler \<Rightarrow> Logger" where
  "New h =
     \<lparr>level = LevelInfo, flag = 0, handler = h, quit = Open, msg = make_chan,
      bufs = [], wg = 1, closed = False\<rparr>"

definition NewDefault :: "Handler \<Rightarrow> Logger" where
  "NewDefault h = New h"

definition popBuf :: "Logger \<Rightarrow> Buffer \<times> Logger" where
  "popBuf l =
     (if length (bufs l) = 0 then (\<lparr>data = [], capacity = 1024\<rparr>, l)
      else (last (bufs l), l\<lparr>bufs := butlast (bufs l)\<rparr>))"

definition putBuf :: "Buffer \<Rightarrow> Logger \<Rightarrow> Logger" where
  "putBuf buf l =
     (if length (bufs l) < maxBufPoolSize
      then l\<lparr>bufs := bufs l @ [buf\<lparr>data := []\<rparr>]\<rparr>
      else l)"

definition SetLevel :: "LogLever \<Rightarrow> Logger \<Rightarrow> Logger" where
  "SetLevel lv l = l\<lparr>level := lv\<rparr>"

subsection \<open>Colour codes\<close>

text \<open>
  A Go \<open>switch\<close> does not fall through: the empty \<open>case LevelDebug:\<close> leaves the
  \<open>switch\<close>, and so does every value that matches no case; both reach the final
  \<open>return ""\<close>. The methods have a receiver, which the model keeps as an argument.
\<close>

definition colorStart :: "Logger \<Rightarrow> LogLever \<Rightarrow> string" where
  "colorStart l lv =
     (if lv = LevelDebug then ''''
      else if lv = LevelInfo then GREEN
      else if lv = LevelWarn then YELLOW
      else if lv = LevelError then RED
      else '''')"

definition colorStop :: "Logger \<Rightarrow> LogLever \<Rightarrow> string" where
  "colorStop l lv =
     (if lv = LevelDebug then ''''
      else if lv = LevelInfo then NONE
      else if lv = LevelWarn then NONE
      else if lv = LevelError then NONE
      else '''')"

subsection \<open>Rendering and emission\<close>

text \<open>
  What \<open>Output\<close> takes from outside the package is an argument of the model: the
  formatted time \<open>time.Now().Format(TimeFormat)\<close>, the answer of
  \<open>runtime.Caller\<close> at each depth (\<open>None\<close> when \<open>ok\<close> is false), and the message
  \<open>fmt.Sprintf(format, v...)\<close>, passed as the string \<open>s\<close>.
\<close>

record Env =
  now :: string
  Caller :: "int \<Rightarrow> (string \<times> int) option"

text \<open>
  \<open>strconv.AppendInt(buf, int64(line), 10)\<close>: the decimal digits, most significant
  first, after a minus sign for a negative number.
\<close>

fun formatBits :: "nat \<Rightarrow> string" where
  "formatBits u =
     (if u < 10 then [''0123456789'' ! u]
      else formatBits (u div 10) @ [''0123456789'' ! (u mod 10)])"

definition AppendInt :: "Buffer \<Rightarrow> int \<Rightarrow> Buffer" where
  "AppendInt dst i =
     append_bytes dst (if i < 0 then CHR ''-'' # formatBits (nat (- i)) else formatBits (nat i))"

text \<open>
  The loop \<open>for i := len(file) - 1; i > 0; i--\<close> of \<open>Output\<close>, with its \<open>break\<close>.
\<close>

function shortFile :: "string \<Rightarrow> int \<Rightarrow> string" where
  "shortFile file i =
     (if i > 0 then
        (if file ! nat i = CHR ''/'' then drop (nat (i + 1)) file
         else shortFile file (i - 1))
      else file)"
  by pat_completeness auto
termination
  by (relation "measure (\<lambda>(file, i). nat i)") auto

definition call_site :: "(string \<times> int) option \<Rightarrow> string \<times> int" where
  "call_site r =
     (case r of
        None \<Rightarrow> (''???'', 0)
      | Some (file, line) \<Rightarrow> (shortFile file (int (length file) - 1), line))"

definition Output :: "Env \<Rightarrow> bool \<Rightarrow> int \<Rightarrow> LogLever \<Rightarrow> string \<Rightarrow> Logger \<Rightarrow> Logger" where
  "Output env ln callDepth lv s l =
     (if level l AND lv \<noteq> lv then l
      else
        let (buf, l) = popBuf l;
            buf = (if ln then append_bytes buf (CHR 0x1B # ''[1A'') else buf);
            buf = append_bytes buf (now env);
            buf = append_bytes buf '' - '';
            buf = append_bytes buf (colorStart l lv);
            buf = append_bytes buf (levelName lv);
            buf = append_bytes buf (colorStop l lv);
            buf = append_bytes buf '' - '';
            (file, line) = call_site (Caller env callDepth);
            buf = append_bytes buf file;
            buf = append_bytes buf '':['';
            buf = AppendInt buf line;
            buf = append_bytes buf ''] - '';
            buf = append_bytes buf s;
            buf = (if ln then append_bytes buf (CHR 0x1B # ''[K'') else buf);
            buf = (if length s = 0 \<or> last s \<noteq> CHR 0x0A
                   then append_bytes buf [CHR 0x0A] else buf)
        in l\<lparr>msg := chan_send buf (msg l)\<rparr>)"

definition Debug :: "Env \<Rightarrow> string \<Rightarrow> Logger \<Rightarrow> Logger" where
  "Debug env s l = Output env False 2 LevelDebug s l"

definition Info :: "Env \<Rightarrow> string \<Rightarrow> Logger \<Rightarrow> Logger" where
  "Info env s l = Output env False 2 LevelInfo s l"

definition Warn :: "Env \<Rightarrow> string \<Rightarrow> Logger \<Rightarrow> Logger" where
  "Warn env s l = Output env False 2 LevelWarn s l"

definition Error :: "Env \<Rightarrow> string \<Rightarrow> Logger \<Rightarrow> Logger" where
  "Error env s l = Output env False 2 LevelError s l"

subsection \<open>The dispatch loop\<close>

text \<open>
  One iteration of \<open>run\<close> is a \<open>select\<close> over a receive on \<open>l.msg\<close> (ready when a
  record is buffered) and a receive on \<open>l.quit\<close> (ready when it is closed). With one
  case ready, it is taken; with none, the goroutine waits; with both, Go chooses one at
  random. The choices are an argument: the list \<open>ps\<close> gives, in order, the case chosen
  each time both are ready, and \<open>None\<close> means that the list does not reach the end of
  the loop.

  \<open>recv_case\<close> is the body of \<open>case msg := <-l.msg\<close>: the receive, then
  \<open>l.handler.Write(msg)\<close>, whose error is dropped, then \<open>l.putBuf(msg)\<close>.
  \<open>wg_Done\<close> is the deferred \<open>l.wg.Done()\<close>, run when the loop returns. The branches
  of \<open>run\<close>, in order: nothing buffered and quit closed, so only the quit case is ready
  and \<open>len(l.msg) == 0\<close> holds: return; nothing buffered and quit not closed: the
  goroutine waits in the \<open>select\<close>, and the state is returned as it is; both ready: the
  next choice decides, and the quit case tests \<open>len(l.msg) == 0\<close> and loops when it
  fails; only the receive ready: it is taken.
\<close>

datatype pick = PickMsg | PickQuit

definition recv_case :: "Logger \<Rightarrow> Logger" where
  "recv_case l =
     (case chan_recv (msg l) of
        None \<Rightarrow> l
      | Some (m, c) \<Rightarrow> putBuf m (l\<lparr>msg := c, handler := handler_Write m (handler l)\<rparr>))"

definition wg_Done :: "Logger \<Rightarrow> Logger" where
  "wg_Done l = l\<lparr>wg := wg l - 1\<rparr>"

function run :: "pick list \<Rightarrow> Logger \<Rightarrow> Logger option" where
  "run ps l =
     (if queue (msg l) = [] then
        (if quit l = Closed then Some (wg_Done l)
         else Some l)
      else if quit l = Closed then
        (case ps of
           [] \<Rightarrow> None
         | PickMsg # ps' \<Rightarrow> run ps' (recv_case l)
         | PickQuit # ps' \<Rightarrow>
             (if length (queue (msg l)) = 0 then Some (wg_Done l) else run ps' l))
      else run ps (recv_case l))"
  by pat_completeness auto
termination
  by (relation "measure (\<lambda>(ps, l). length ps + length (queue (msg l)) + length (sendq (msg l)))")
     (auto simp add: recv_case_def chan_recv_def putBuf_def split: list.splits)

text \<open>
  The goroutine takes steps only while it is alive. \<open>dispatch\<close> lets it run until it
  waits or returns; \<open>wg_Wait\<close> is \<open>l.wg.Wait()\<close>, which returns once the counter is 0.
\<close>

definition dispatch :: "pick list \<Rightarrow> Logger \<Rightarrow> Logger option" where
  "dispatch ps l = (if wg l = 0 then Some l else run ps l)"

definition wg_Wait :: "pick list \<Rightarrow> Logger \<Rightarrow> Logger option" where
  "wg_Wait ps l =
     (case dispatch ps l of
        None \<Rightarrow> None
      | Some l' \<Rightarrow> if wg l' = 0 then Some l' else None)"

subsection \<open>Close\<close>

datatype error = ClosePanic

definition Close :: "pick list \<Rightarrow> Logger \<Rightarrow> (error + Logger) option" where
  "Close ps l =
     (if closed l then Some (Inr l)
      else
        let l = l\<lparr>closed := True\<rparr> in
        (case quit l of
           Open \<Rightarrow>
             (case wg_Wait ps (l\<lparr>quit := Closed\<rparr>) of
                None \<Rightarrow> None
              | Some l \<Rightarrow> Some (Inr (l\<lparr>quit := Nil, handler := handler_Close (handler l)\<rparr>)))
         | Closed \<Rightarrow> Some (Inl ClosePanic)
         | Nil \<Rightarrow> Some (Inl ClosePanic)))"


subsection \<open>The default logger\<close>

text \<open>
  The package variable \<open>defLoger\<close> is a pointer that may be nil, and
  \<open>fmt.Println\<close> writes a line to the standard output of the process.
  \<open>NewTimeRotatingFileHandler\<close> is not part of the given sources: its answer for a file
  name (with the fixed arguments \<open>WhenDay\<close> and \<open>1\<close>) is an argument, a handler and
  an error of which either may be nil.
\<close>

record Proc =
  defLoger :: "Logger option"
  stdout :: "string list"

definition init_Proc :: Proc where
  "init_Proc = \<lparr>defLoger = Some (NewDefault newStdHandler), stdout = []\<rparr>"

definition SetLogFile ::
  "(string \<Rightarrow> Handler option \<times> string option) \<Rightarrow> pick list \<Rightarrow> string \<Rightarrow> Proc
     \<Rightarrow> (error + Proc) option" where
  "SetLogFile NewTimeRotatingFileHandler ps logFile p =
     (case (case defLoger p of
              None \<Rightarrow> Some (Inr p)
            | Some l \<Rightarrow>
                (case Close ps l of
                   None \<Rightarrow> None
                 | Some (Inl e) \<Rightarrow> Some (Inl e)
                 | Some (Inr l') \<Rightarrow> Some (Inr (p\<lparr>defLoger := Some l'\<rparr>)))) of
        None \<Rightarrow> None
      | Some (Inl e) \<Rightarrow> Some (Inl e)
      | Some (Inr p) \<Rightarrow>
          (case (if length logFile \<noteq> 0 then NewTimeRotatingFileHandler logFile
                 else (None, None)) of
             (h, Some err) \<Rightarrow> Some (Inr (p\<lparr>stdout := stdout p @ [err]\<rparr>))
           | (h, None) \<Rightarrow>
               let h = (case h of None \<Rightarrow> newStdHandler | Some h' \<Rightarrow> h')
               in Some (Inr (p\<lparr>defLoger := Some (NewDefault h)\<rparr>))))"

subsection \<open>Predicates used in the statements\<close>

text \<open>
  The records held by the channel, oldest first: the buffered ones, then those of the
  senders parked on the full channel.
\<close>

definition pending :: "Logger \<Rightarrow> Buffer list" where
  "pending l = queue (msg l) @ sendq (msg l)"

text \<open>A channel state of the Go runtime: senders are parked only on a full buffer.\<close>

definition chan_ok :: "msg_chan \<Rightarrow> bool" where
  "chan_ok c \<longleftrightarrow> length (queue c) \<le> msgCap \<and> (sendq c = [] \<or> length (queue c) = msgCap)"

text \<open>A logger as \<open>New\<close> returns it and as it stays until \<open>Close\<close> is called.\<close>

definition running :: "Logger \<Rightarrow> bool" where
  "running l \<longleftrightarrow> \<not> closed l \<and> quit l = Open \<and> wg l = 1 \<and> chan_ok (msg l)"

text \<open>The invariant of the free list \<open>l.bufs\<close>.\<close>

definition pool_inv :: "Logger \<Rightarrow> bool" where
  "pool_inv l \<longleftrightarrow>
     length (bufs l) \<le> maxBufPoolSize \<and> (\<forall>b \<in> set (bufs l). length (data b) = 0)"

text \<open>
  The record as the specification words it: timestamp, separator, colourised label,
  separator, \<open>file:[line]\<close>, separator, message, and a newline when the message is empty
  or does not end in one.
\<close>

definition spec_record :: "string \<Rightarrow> string \<Rightarrow> string \<Rightarrow> string \<Rightarrow> string \<Rightarrow> string" where
  "spec_record ts label file line s =
     ts @ '' - '' @ label @ '' - '' @ file @ '':['' @ line @ '']'' @ '' - '' @ s
     @ (if s = [] \<or> last s \<noteq> CHR 0x0A then [CHR 0x0A] else [])"

definition decimal :: "int \<Rightarrow> string" where
  "decimal i = data (AppendInt \<lparr>data = [], capacity = 0\<rparr> i)"

text \<open>
  The final path segment as the specification words it: what follows the last \<open>/\<close>
  (the whole path when it has none).
\<close>

definition last_segment :: "string \<Rightarrow> string" where
  "last_segment file = rev (takeWhile (\<lambda>c. c \<noteq> CHR ''/'') (rev file))"

text \<open>A handler constructor that fails for every file name, as for a directory that does not exist.\<close>

definition failing_constructor :: "string \<Rightarrow> Handler option \<times> string option" where
  "failing_constructor logFile = (None, Some (''open '' @ logFile @ '': no such file or directory''))"

section \<open>Properties\<close>

lemma and_bit_mask_iff:
  fixes w :: "'a::len word"
  assumes "n < LENGTH('a)"
  shows "(w AND push_bit n 1 = push_bit n 1) = bit w n"
proof
  assume eq: "w AND push_bit n 1 = push_bit n 1"
  have "bit (w AND push_bit n 1) n = bit (push_bit n 1 :: 'a word) n"
    by (simp only: eq)
  with assms show "bit w n"
    by (simp add: bit_and_iff bit_push_bit_iff bit_exp_iff)
next
  assume "bit w n"
  then show "w AND push_bit n 1 = push_bit n 1"
    by (intro bit_word_eqI) (auto simp add: bit_and_iff bit_push_bit_iff bit_1_iff bit_exp_iff)
qed

subsection \<open>Severity bits and the label\<close>

lemmas Level_defs = LevelInfo_def LevelDebug_def LevelWarn_def LevelError_def

lemma level_tests:
  "(lv AND LevelDebug = LevelDebug) = bit lv 1"
  "(lv AND LevelInfo = LevelInfo) = bit lv 0"
  "(lv AND LevelWarn = LevelWarn) = bit lv 2"
  "(lv AND LevelError = LevelError) = bit lv 3"
  using and_bit_mask_iff [of 1 lv] and_bit_mask_iff [of 0 lv]
    and_bit_mask_iff [of 2 lv] and_bit_mask_iff [of 3 lv]
  by (simp_all add: Level_defs)

text \<open>
  C10. The label is chosen by testing the Debug bit (bit 1, value 2), then the Info bit
  (bit 0, value 1), then the Warn bit (bit 2, value 4), then the Error bit (bit 3, value
  8), each with a bitwise AND against the level's mask; the first bit that is set
  decides. So a value with several bits set gets the label of the first level in that
  order (Debug wins over every other level, whatever else is set), and a value with none
  of the four bits set, such as 0 or 16, gets the empty label.
\<close>

theorem levelName_priority:
  "levelName lv =
     (if bit lv 1 then ''DEBUG''
      else if bit lv 0 then ''INFO''
      else if bit lv 2 then ''WARN''
      else if bit lv 3 then ''ERROR''
      else '''')
   \<and> (\<forall>x. levelName (x OR LevelDebug) = ''DEBUG'')
   \<and> levelName (LevelDebug OR LevelError) = ''DEBUG''
   \<and> levelName LevelAll = ''DEBUG''
   \<and> levelName (LevelInfo OR LevelWarn OR LevelError) = ''INFO''
   \<and> levelName (LevelWarn OR LevelError) = ''WARN''
   \<and> levelName 0 = '''' \<and> levelName 16 = ''''
   \<and> LevelInfo = 1 \<and> LevelDebug = 2 \<and> LevelWarn = 4 \<and> LevelError = 8 \<and> LevelAll = 15"
proof -
  have "levelName lv =
     (if bit lv 1 then ''DEBUG''
      else if bit lv 0 then ''INFO''
      else if bit lv 2 then ''WARN''
      else if bit lv 3 then ''ERROR''
      else '''')"
    by (simp only: levelName_def level_tests)
  moreover have "\<forall>x. levelName (x OR LevelDebug) = ''DEBUG''"
    by (simp add: levelName_def word_ao_absorbs)
  moreover have "levelName (LevelDebug OR LevelError) = ''DEBUG''"
    by (simp add: levelName_def Level_defs)
  moreover have "levelName LevelAll = ''DEBUG''"
    by (simp add: levelName_def Level_defs LevelAll_def)
  moreover have "levelName (LevelInfo OR LevelWarn OR LevelError) = ''INFO''"
    by (simp add: levelName_def Level_defs)
  moreover have "levelName (LevelWarn OR LevelError) = ''WARN''"
    by (simp add: levelName_def Level_defs)
  moreover have "levelName 0 = '''' \<and> levelName 16 = ''''"
    by (simp add: levelName_def Level_defs)
  moreover have "LevelInfo = 1 \<and> LevelDebug = 2 \<and> LevelWarn = 4 \<and> LevelError = 8 \<and> LevelAll = 15"
    by (simp add: Level_defs LevelAll_def)
  ultimately show ?thesis by blast
qed

subsection \<open>The buffer pool\<close>

lemma data_append_bytes: "data (append_bytes buf s) = data buf @ s"
  by (simp add: append_bytes_def)

lemma data_AppendInt: "data (AppendInt buf i) = data buf @ decimal i"
  by (simp add: AppendInt_def decimal_def data_append_bytes)

lemma popBuf_fields:
  "level (snd (popBuf l)) = level l" "handler (snd (popBuf l)) = handler l"
  "quit (snd (popBuf l)) = quit l" "msg (snd (popBuf l)) = msg l"
  "wg (snd (popBuf l)) = wg l" "closed (snd (popBuf l)) = closed l"
  "flag (snd (popBuf l)) = flag l"
  by (simp_all add: popBuf_def)

lemma pool_inv_New: "pool_inv (New h)"
  by (simp add: pool_inv_def New_def)

lemma pool_inv_popBuf: "pool_inv l \<Longrightarrow> pool_inv (snd (popBuf l))"
  by (auto simp add: pool_inv_def popBuf_def dest: in_set_butlastD)

lemma popBuf_empty: "pool_inv l \<Longrightarrow> data (fst (popBuf l)) = []"
  by (cases "bufs l = []") (simp_all add: pool_inv_def popBuf_def)

lemma pool_inv_putBuf: "pool_inv l \<Longrightarrow> pool_inv (putBuf buf l)"
  by (auto simp add: pool_inv_def putBuf_def)

text \<open>
  C3. The free list holds at most 16 buffers, each of length zero. The list of a new
  logger satisfies this, and \<open>popBuf\<close> and \<open>putBuf\<close> preserve it. Hence
  \<open>popBuf\<close> returns a buffer of length zero: a new one of capacity 1024 when the list
  is empty, the last one held otherwise. \<open>putBuf\<close> truncates the buffer to length zero
  (keeping its capacity) and appends it when fewer than 16 are held, and otherwise leaves
  the list as it is, dropping the buffer.
\<close>

theorem buffer_pool_invariant:
  assumes "pool_inv l"
  shows "pool_inv (New h)
     \<and> pool_inv (snd (popBuf l)) \<and> pool_inv (putBuf buf l)
     \<and> length (data (fst (popBuf l))) = 0
     \<and> (if length (bufs l) = 0 then popBuf l = (\<lparr>data = [], capacity = 1024\<rparr>, l)
         else popBuf l = (last (bufs l), l\<lparr>bufs := butlast (bufs l)\<rparr>))
     \<and> (if length (bufs l) < 16
         then putBuf buf l = l\<lparr>bufs := bufs l @ [\<lparr>data = [], capacity = capacity buf\<rparr>]\<rparr>
         else putBuf buf l = l)"
proof -
  have "(if length (bufs l) = 0 then popBuf l = (\<lparr>data = [], capacity = 1024\<rparr>, l)
         else popBuf l = (last (bufs l), l\<lparr>bufs := butlast (bufs l)\<rparr>))"
    by (simp add: popBuf_def)
  moreover have "(if length (bufs l) < 16
         then putBuf buf l = l\<lparr>bufs := bufs l @ [\<lparr>data = [], capacity = capacity buf\<rparr>]\<rparr>
         else putBuf buf l = l)"
    by (simp add: putBuf_def maxBufPoolSize_def)
  ultimately show ?thesis
    using assms pool_inv_New [of h] pool_inv_popBuf [of l] pool_inv_putBuf [of l buf] popBuf_empty [of l]
    by simp
qed

theorem buffer_pool_invariant_witness:
  "pool_inv (putBuf \<lparr>data = ''stale'', capacity = 2048\<rparr> (New newStdHandler))
   \<and> bufs (putBuf \<lparr>data = ''stale'', capacity = 2048\<rparr> (New newStdHandler))
       = [\<lparr>data = [], capacity = 2048\<rparr>]
   \<and> fst (popBuf (putBuf \<lparr>data = ''stale'', capacity = 2048\<rparr> (New newStdHandler)))
       = \<lparr>data = [], capacity = 2048\<rparr>
   \<and> pool_inv (snd (popBuf (putBuf \<lparr>data = ''stale'', capacity = 2048\<rparr> (New newStdHandler))))"
proof -
  have p: "pool_inv (putBuf \<lparr>data = ''stale'', capacity = 2048\<rparr> (New newStdHandler))"
    by (simp add: pool_inv_def putBuf_def New_def maxBufPoolSize_def)
  show ?thesis
    using p buffer_pool_invariant [OF p, of newStdHandler "\<lparr>data = [], capacity = 0\<rparr>"]
    by (simp add: putBuf_def New_def maxBufPoolSize_def popBuf_def)
qed

subsection \<open>The dispatch loop drains the channel\<close>

declare run.simps [simp del]

lemma putBuf_fields:
  "level (putBuf b l) = level l" "handler (putBuf b l) = handler l" "quit (putBuf b l) = quit l"
  "msg (putBuf b l) = msg l" "wg (putBuf b l) = wg l" "closed (putBuf b l) = closed l"
  "flag (putBuf b l) = flag l"
  by (simp_all add: putBuf_def)

lemma recv_case_fields:
  "level (recv_case l) = level l" "quit (recv_case l) = quit l"
  "wg (recv_case l) = wg l" "closed (recv_case l) = closed l" "flag (recv_case l) = flag l"
  "close_calls (handler (recv_case l)) = close_calls (handler l)"
  "sink (handler (recv_case l)) = sink (handler l)"
  by (simp_all add: recv_case_def putBuf_fields handler_Write_def split: option.splits prod.splits)

lemma recv_case_nonempty:
  assumes "queue (msg l) \<noteq> []"
  shows "written (handler (recv_case l)) = written (handler l) @ [data (hd (pending l))]"
    and "pending (recv_case l) = tl (pending l)"
    and "chan_ok (msg l) \<Longrightarrow> chan_ok (msg (recv_case l))"
  using assms
  by (cases "queue (msg l)"; cases "sendq (msg l)";
      simp add: recv_case_def chan_recv_def putBuf_fields handler_Write_def pending_def chan_ok_def msgCap_def)+

lemma chan_ok_empty: "chan_ok (msg l) \<Longrightarrow> queue (msg l) = [] \<Longrightarrow> pending l = []"
  by (auto simp add: chan_ok_def pending_def msgCap_def)

lemma pending_nonempty: "queue (msg l) \<noteq> [] \<Longrightarrow> pending l \<noteq> []"
  by (simp add: pending_def)

lemma run_result:
  "run ps l = Some l' \<Longrightarrow> chan_ok (msg l) \<Longrightarrow>
     written (handler l') = written (handler l) @ map data (pending l)
     \<and> pending l' = []
     \<and> close_calls (handler l') = close_calls (handler l)
     \<and> sink (handler l') = sink (handler l)
     \<and> level l' = level l \<and> closed l' = closed l \<and> quit l' = quit l \<and> flag l' = flag l
     \<and> wg l' = (if quit l = Closed then wg l - 1 else wg l)"
proof (induction ps l rule: run.induct)
  case (1 ps l)
  show ?case
  proof (cases "queue (msg l) = []")
    case True
    have "sendq (msg l) = []"
      using chan_ok_empty [OF "1.prems"(2) True] by (simp add: pending_def)
    with True "1.prems" show ?thesis
      by (auto simp add: run.simps [of ps l] wg_Done_def pending_def split: if_splits)
  next
    case ne: False
    note rc = recv_case_nonempty [OF ne] recv_case_fields
    have step: "written (handler l) @ map data (pending l)
                = written (handler (recv_case l)) @ map data (pending (recv_case l))"
      using pending_nonempty [OF ne] by (cases "pending l") (simp_all add: rc)
    show ?thesis
    proof (cases "quit l = Closed")
      case False
      with ne "1.prems" have r: "run ps (recv_case l) = Some l'"
        by (simp add: run.simps [of ps l])
      from "1.IH"(3) [OF ne False r] "1.prems"(2) ne False show ?thesis
        by (simp add: rc step)
    next
      case cl: True
      show ?thesis
      proof (cases ps)
        case Nil
        with ne cl "1.prems" show ?thesis by (simp add: run.simps [of "[]" l])
      next
        case (Cons p ps')
        show ?thesis
        proof (cases p)
          case PickMsg
          with ne cl Cons "1.prems" have r: "run ps' (recv_case l) = Some l'"
            by (simp add: run.simps [of "PickMsg # ps'" l])
          from "1.IH"(1) [OF ne cl Cons PickMsg r] "1.prems"(2) ne cl show ?thesis
            by (simp add: rc step)
        next
          case PickQuit
          with ne cl Cons "1.prems" have r: "run ps' l = Some l'"
            by (simp add: run.simps [of "PickQuit # ps'" l])
          have "length (queue (msg l)) \<noteq> 0" using ne by simp
          from "1.IH"(2) [OF ne cl Cons PickQuit this r] "1.prems"(2) show ?thesis
            by simp
        qed
      qed
    qed
  qed
qed

lemma run_returns_open: "quit l \<noteq> Closed \<Longrightarrow> \<exists>l'. run ps l = Some l'"
proof (induction ps l rule: run.induct)
  case (1 ps l)
  show ?case
  proof (cases "queue (msg l) = []")
    case True
    with "1.prems" show ?thesis by (simp add: run.simps [of ps l])
  next
    case False
    from "1.IH"(3) [OF False "1.prems"] "1.prems" have "\<exists>l'. run ps (recv_case l) = Some l'"
      by (simp add: recv_case_fields)
    with False "1.prems" show ?thesis by (simp add: run.simps [of ps l])
  qed
qed

lemma run_returns_closed:
  "quit l = Closed \<Longrightarrow> length (pending l) \<le> count_list ps PickMsg \<Longrightarrow> \<exists>l'. run ps l = Some l'"
proof (induction ps l rule: run.induct)
  case (1 ps l)
  show ?case
  proof (cases "queue (msg l) = []")
    case True
    with "1.prems" show ?thesis by (simp add: run.simps [of ps l])
  next
    case ne: False
    note rc = recv_case_nonempty [OF ne] recv_case_fields
    have pos: "0 < length (pending l)" using pending_nonempty [OF ne] by simp
    show ?thesis
    proof (cases ps)
      case Nil
      with "1.prems" pos show ?thesis by simp
    next
      case (Cons p ps')
      show ?thesis
      proof (cases p)
        case PickMsg
        have "\<exists>l'. run ps' (recv_case l) = Some l'"
          using "1.IH"(1) [OF ne "1.prems"(1) Cons PickMsg] "1.prems" Cons PickMsg pos
          by (simp add: rc)
        with ne "1.prems"(1) Cons PickMsg show ?thesis
          by (simp add: run.simps [of "PickMsg # ps'" l])
      next
        case PickQuit
        have "length (queue (msg l)) \<noteq> 0" using ne by simp
        from "1.IH"(2) [OF ne "1.prems"(1) Cons PickQuit this] "1.prems" Cons PickQuit
        have "\<exists>l'. run ps' l = Some l'" by simp
        with ne "1.prems"(1) Cons PickQuit show ?thesis
          by (simp add: run.simps [of "PickQuit # ps'" l])
      qed
    qed
  qed
qed

lemma dispatch_running:
  assumes "running l"
  shows "\<exists>l'. dispatch ps l = Some l' \<and> running l'
           \<and> written (handler l') = written (handler l) @ map data (pending l)
           \<and> pending l' = [] \<and> close_calls (handler l') = close_calls (handler l)"
proof -
  from assms have q: "quit l \<noteq> Closed" and ok: "chan_ok (msg l)" and w: "wg l = 1"
    by (simp_all add: running_def)
  from run_returns_open [OF q, of ps] obtain l' where r: "run ps l = Some l'" ..
  from run_result [OF r ok] assms have
    "written (handler l') = written (handler l) @ map data (pending l)
     \<and> pending l' = [] \<and> close_calls (handler l') = close_calls (handler l) \<and> running l'"
    by (simp add: running_def pending_def chan_ok_def)
  with r w show ?thesis by (simp add: dispatch_def)
qed

lemma dispatch_dead: "wg l = 0 \<Longrightarrow> dispatch ps l = Some l"
  by (simp add: dispatch_def)

subsection \<open>Emission\<close>

lemma Output_filtered: "level l AND lv \<noteq> lv \<Longrightarrow> Output env ln cd lv s l = l"
  by (simp only: Output_def if_P simp_thms)

lemma Output_pass:
  assumes "level l AND lv = lv"
  shows "\<exists>buf. Output env ln cd lv s l = (snd (popBuf l))\<lparr>msg := chan_send buf (msg l)\<rparr>
         \<and> data buf = data (fst (popBuf l))
             @ (if ln then CHR 0x1B # ''[1A'' else [])
             @ now env @ '' - ''
             @ (colorStart l lv @ levelName lv @ colorStop l lv) @ '' - ''
             @ fst (call_site (Caller env cd)) @ '':[''
             @ decimal (snd (call_site (Caller env cd))) @ '']'' @ '' - ''
             @ s
             @ (if ln then CHR 0x1B # ''[K'' else [])
             @ (if s = [] \<or> last s \<noteq> CHR 0x0A then [CHR 0x0A] else [])"
proof -
  have cs: "colorStart (snd (popBuf l)) lv = colorStart l lv"
    "colorStop (snd (popBuf l)) lv = colorStop l lv"
    by (simp_all add: colorStart_def colorStop_def)
  have sep: "''] - '' = '']'' @ '' - ''" by simp
  show ?thesis
    using assms
    apply (simp only: Output_def not_not simp_thms if_False)
    apply (simp only: Let_def)
    apply (simp only: case_prod_beta popBuf_fields)
    apply (rule exI, rule conjI, rule refl)
    apply (cases ln; cases "s = []"; cases "last s = CHR 0x0A")
    apply (simp_all only: data_append_bytes data_AppendInt cs sep popBuf_fields append_Nil if_True if_False
             length_0_conv append_assoc append_Nil2 simp_thms)
    done
qed


lemma chan_send_ok: "chan_ok c \<Longrightarrow> chan_ok (chan_send buf c)"
  by (auto simp add: chan_ok_def chan_send_def)

lemma chan_send_pending:
  "chan_ok c \<Longrightarrow> queue (chan_send buf c) @ sendq (chan_send buf c) = queue c @ sendq c @ [buf]"
  by (auto simp add: chan_ok_def chan_send_def)

lemma Output_pass_state:
  assumes "level l AND lv = lv"
  shows "\<exists>buf. Output env ln cd lv s l = (snd (popBuf l))\<lparr>msg := chan_send buf (msg l)\<rparr>"
  using Output_pass [OF assms, of env ln cd s] by blast

lemma Output_fields:
  "level (Output env ln cd lv s l) = level l" "handler (Output env ln cd lv s l) = handler l"
  "quit (Output env ln cd lv s l) = quit l" "wg (Output env ln cd lv s l) = wg l"
  "closed (Output env ln cd lv s l) = closed l" "flag (Output env ln cd lv s l) = flag l"
proof -
  consider "level l AND lv \<noteq> lv" | "level l AND lv = lv" by blast
  then have "level (Output env ln cd lv s l) = level l \<and> handler (Output env ln cd lv s l) = handler l
    \<and> quit (Output env ln cd lv s l) = quit l \<and> wg (Output env ln cd lv s l) = wg l
    \<and> closed (Output env ln cd lv s l) = closed l \<and> flag (Output env ln cd lv s l) = flag l"
  proof cases
    case 1
    then show ?thesis by (simp add: Output_filtered)
  next
    case 2
    from Output_pass_state [OF 2, of env ln cd s] obtain buf where
      "Output env ln cd lv s l = (snd (popBuf l))\<lparr>msg := chan_send buf (msg l)\<rparr>" ..
    then show ?thesis by (simp add: popBuf_fields)
  qed
  then show "level (Output env ln cd lv s l) = level l" "handler (Output env ln cd lv s l) = handler l"
  "quit (Output env ln cd lv s l) = quit l" "wg (Output env ln cd lv s l) = wg l"
  "closed (Output env ln cd lv s l) = closed l" "flag (Output env ln cd lv s l) = flag l"
    by simp_all
qed

lemma Output_chan_ok: "chan_ok (msg l) \<Longrightarrow> chan_ok (msg (Output env ln cd lv s l))"
proof (cases "level l AND lv = lv")
  case True
  assume ok: "chan_ok (msg l)"
  from Output_pass_state [OF True, of env ln cd s] obtain buf where
    "Output env ln cd lv s l = (snd (popBuf l))\<lparr>msg := chan_send buf (msg l)\<rparr>" ..
  then show ?thesis using ok by (simp add: chan_send_ok)
next
  case False
  then show "chan_ok (msg l) \<Longrightarrow> ?thesis" by (simp add: Output_filtered)
qed

lemma Output_running: "running l \<Longrightarrow> running (Output env ln cd lv s l)"
  by (simp add: running_def Output_fields Output_chan_ok)

lemma Output_pending:
  assumes "level l AND lv = lv" and "chan_ok (msg l)"
  shows "\<exists>buf. pending (Output env ln cd lv s l) = pending l @ [buf]"
proof -
  from Output_pass_state [OF assms(1), of env ln cd s] obtain buf where
    "Output env ln cd lv s l = (snd (popBuf l))\<lparr>msg := chan_send buf (msg l)\<rparr>" ..
  then have "pending (Output env ln cd lv s l) = pending l @ [buf]"
    using chan_send_pending [OF assms(2), of buf] by (simp add: pending_def)
  then show ?thesis ..
qed

lemma running_New: "running (New h)"
  by (simp add: running_def New_def make_chan_def chan_ok_def)

lemma running_SetLevel: "running l \<Longrightarrow> running (SetLevel lv l)"
  by (simp add: running_def SetLevel_def)

lemma Output_once:
  assumes "level l AND lv = lv" and "running l"
  shows "\<exists>l1 l2 r. dispatch ps l = Some l1 \<and> dispatch ps (Output env ln cd lv s l) = Some l2
           \<and> written (handler l2) = written (handler l1) @ [r]"
proof -
  from assms(2) have ok: "chan_ok (msg l)" by (simp add: running_def)
  from dispatch_running [OF assms(2), of ps] obtain l1 where
    l1: "dispatch ps l = Some l1" "written (handler l1) = written (handler l) @ map data (pending l)"
    by blast
  from dispatch_running [OF Output_running [OF assms(2)], of ps env ln cd lv s] obtain l2 where
    l2: "dispatch ps (Output env ln cd lv s l) = Some l2"
      "written (handler l2) = written (handler (Output env ln cd lv s l))
         @ map data (pending (Output env ln cd lv s l))"
    by blast
  from Output_pending [OF assms(1) ok, of env ln cd s] obtain buf where
    "pending (Output env ln cd lv s l) = pending l @ [buf]" ..
  with l1 l2 have "written (handler l2) = written (handler l1) @ [data buf]"
    by (simp add: Output_fields)
  with l1(1) l2(1) show ?thesis by blast
qed

text \<open>
  C1. A call of \<open>Output\<close>, or of the wrappers \<open>Debug\<close>, \<open>Info\<close>, \<open>Warn\<close> and
  \<open>Error\<close> with their severity, on a logger of level mask \<open>L\<close> at severity \<open>S\<close>:
  when \<open>L AND S \<noteq> S\<close> the call returns the logger as it was, so nothing is written
  and the pool and the queue are unchanged; when \<open>L AND S = S\<close> the call itself writes
  nothing and hands exactly one record to the channel, after those it holds; and on a
  logger that is running (built by \<open>New\<close>, not yet closed) the handler observes, once
  the dispatch loop has drained the channel, exactly one write more than it observes
  without the call, after all the others.
\<close>

theorem emission_filter:
  "\<forall>(emit, sev) \<in> set [(Output env ln cd lv s, lv), (Debug env s, LevelDebug),
        (Info env s, LevelInfo), (Warn env s, LevelWarn), (Error env s, LevelError)].
     (level l AND sev \<noteq> sev \<longrightarrow> emit l = l)
     \<and> (level l AND sev = sev \<and> chan_ok (msg l) \<longrightarrow>
          handler (emit l) = handler l \<and> (\<exists>buf. pending (emit l) = pending l @ [buf]))
     \<and> (level l AND sev = sev \<and> running l \<longrightarrow>
          (\<exists>l1 l2 r. dispatch ps l = Some l1 \<and> dispatch ps (emit l) = Some l2
             \<and> written (handler l2) = written (handler l1) @ [r]))"
  using Output_once [where l = l and ps = ps and env = env and s = s and lv = lv and ln = ln and cd = cd]
    Output_once [where l = l and ps = ps and env = env and s = s and lv = LevelDebug and ln = False and cd = 2]
    Output_once [where l = l and ps = ps and env = env and s = s and lv = LevelInfo and ln = False and cd = 2]
    Output_once [where l = l and ps = ps and env = env and s = s and lv = LevelWarn and ln = False and cd = 2]
    Output_once [where l = l and ps = ps and env = env and s = s and lv = LevelError and ln = False and cd = 2]
    Output_pending [where l = l and env = env and s = s and lv = lv and ln = ln and cd = cd]
    Output_pending [where l = l and env = env and s = s and lv = LevelDebug and ln = False and cd = 2]
    Output_pending [where l = l and env = env and s = s and lv = LevelInfo and ln = False and cd = 2]
    Output_pending [where l = l and env = env and s = s and lv = LevelWarn and ln = False and cd = 2]
    Output_pending [where l = l and env = env and s = s and lv = LevelError and ln = False and cd = 2]
  by (simp add: Debug_def Info_def Warn_def Error_def Output_filtered Output_fields)

theorem emission_filter_witness:
  "running (SetLevel (LevelWarn OR LevelError) (New newStdHandler))
   \<and> level (SetLevel (LevelWarn OR LevelError) (New newStdHandler)) AND LevelInfo \<noteq> LevelInfo
   \<and> Info \<lparr>now = ''2024/01/02 03:04:05'', Caller = Map.empty\<rparr> ''started''
        (SetLevel (LevelWarn OR LevelError) (New newStdHandler))
       = SetLevel (LevelWarn OR LevelError) (New newStdHandler)
   \<and> level (SetLevel (LevelWarn OR LevelError) (New newStdHandler)) AND LevelError = LevelError
   \<and> (\<exists>l1 l2 r.
         dispatch [] (SetLevel (LevelWarn OR LevelError) (New newStdHandler)) = Some l1
         \<and> dispatch [] (Error \<lparr>now = ''2024/01/02 03:04:05'', Caller = Map.empty\<rparr> ''failed''
              (SetLevel (LevelWarn OR LevelError) (New newStdHandler))) = Some l2
         \<and> written (handler l2) = written (handler l1) @ [r])"
proof -
  have r: "running (SetLevel (LevelWarn OR LevelError) (New newStdHandler))"
    using running_New [of newStdHandler] by (simp add: running_def SetLevel_def)
  have i: "level (SetLevel (LevelWarn OR LevelError) (New newStdHandler)) AND LevelInfo \<noteq> LevelInfo"
    by (simp add: SetLevel_def Level_defs)
  have e: "level (SetLevel (LevelWarn OR LevelError) (New newStdHandler)) AND LevelError = LevelError"
    by (simp add: SetLevel_def Level_defs)
  show ?thesis
    using r i e
      emission_filter [of "\<lparr>now = ''2024/01/02 03:04:05'', Caller = Map.empty\<rparr>" False 2 LevelInfo
        "''started''" "SetLevel (LevelWarn OR LevelError) (New newStdHandler)" "[]"]
      emission_filter [of "\<lparr>now = ''2024/01/02 03:04:05'', Caller = Map.empty\<rparr>" False 2 LevelError
        "''failed''" "SetLevel (LevelWarn OR LevelError) (New newStdHandler)" "[]"]
    by simp
qed

subsection \<open>The rendered record\<close>

lemma decimal_42: "decimal 42 = ''42''"
  by (simp add: decimal_def AppendInt_def append_bytes_def)

lemma call_site_ex: "call_site (Some (''/src/app/main.go'', 42)) = (''main.go'', 42)"
  by (simp add: call_site_def)

lemma New_passes_Info: "level (New h) AND LevelInfo = LevelInfo"
  by (simp add: New_def)

text \<open>
  C5. A call that passes the filter, on a logger whose pool satisfies its invariant,
  enqueues one buffer. With \<open>ln\<close> false (every entry point but \<open>DebugLine\<close>) its
  bytes are, in order, the formatted timestamp, the separator \<open>" - "\<close>, the colourised
  severity label, the separator, the call site as \<open>file:[line]\<close>, the separator and the
  message, and then a newline exactly when the message is empty or does not end in a
  newline. With \<open>ln\<close> true the record starts with the cursor-up sequence
  \<open>ESC[1A\<close> and has the erase-line sequence \<open>ESC[K\<close> between the message and the
  newline.
\<close>

theorem Output_record:
  assumes "level l AND lv = lv" and "pool_inv l"
  shows "\<exists>buf. Output env ln cd lv s l = (snd (popBuf l))\<lparr>msg := chan_send buf (msg l)\<rparr>
     \<and> data buf =
           (if ln then CHR 0x1B # ''[1A'' else [])
           @ now env @ '' - ''
           @ (colorStart l lv @ levelName lv @ colorStop l lv) @ '' - ''
           @ fst (call_site (Caller env cd)) @ '':[''
           @ decimal (snd (call_site (Caller env cd))) @ '']'' @ '' - ''
           @ s
           @ (if ln then CHR 0x1B # ''[K'' else [])
           @ (if s = [] \<or> last s \<noteq> CHR 0x0A then [CHR 0x0A] else [])
     \<and> (\<not> ln \<longrightarrow>
          data buf = spec_record (now env) (colorStart l lv @ levelName lv @ colorStop l lv)
            (fst (call_site (Caller env cd))) (decimal (snd (call_site (Caller env cd)))) s)"
proof -
  from Output_pass [OF assms(1), of env ln cd s] obtain buf where
    b: "Output env ln cd lv s l = (snd (popBuf l))\<lparr>msg := chan_send buf (msg l)\<rparr>"
      "data buf = data (fst (popBuf l))
             @ (if ln then CHR 0x1B # ''[1A'' else [])
             @ now env @ '' - ''
             @ (colorStart l lv @ levelName lv @ colorStop l lv) @ '' - ''
             @ fst (call_site (Caller env cd)) @ '':[''
             @ decimal (snd (call_site (Caller env cd))) @ '']'' @ '' - ''
             @ s
             @ (if ln then CHR 0x1B # ''[K'' else [])
             @ (if s = [] \<or> last s \<noteq> CHR 0x0A then [CHR 0x0A] else [])"
    by blast
  from b(2) popBuf_empty [OF assms(2)] have
    d: "data buf = (if ln then CHR 0x1B # ''[1A'' else [])
             @ now env @ '' - ''
             @ (colorStart l lv @ levelName lv @ colorStop l lv) @ '' - ''
             @ fst (call_site (Caller env cd)) @ '':[''
             @ decimal (snd (call_site (Caller env cd))) @ '']'' @ '' - ''
             @ s
             @ (if ln then CHR 0x1B # ''[K'' else [])
             @ (if s = [] \<or> last s \<noteq> CHR 0x0A then [CHR 0x0A] else [])"
    by (simp only: append_Nil)
  then have "\<not> ln \<longrightarrow>
          data buf = spec_record (now env) (colorStart l lv @ levelName lv @ colorStop l lv)
            (fst (call_site (Caller env cd))) (decimal (snd (call_site (Caller env cd)))) s"
    by (simp add: spec_record_def)
  with b(1) d show ?thesis by blast
qed

theorem Output_record_witness:
  "level (New newStdHandler) AND LevelInfo = LevelInfo \<and> pool_inv (New newStdHandler)
   \<and> (\<exists>buf. Output \<lparr>now = ''2024/01/02 03:04:05'', Caller = map_of [(2, (''/src/app/main.go'', 42))]\<rparr>
              False 2 LevelInfo ''hi'' (New newStdHandler)
            = (New newStdHandler)\<lparr>msg := \<lparr>queue = [buf], sendq = []\<rparr>\<rparr>
          \<and> data buf = ''2024/01/02 03:04:05 - '' @ GREEN @ ''INFO'' @ NONE
                          @ '' - main.go:[42] - hi'' @ [CHR 0x0A])"
proof -
  have p: "level (New newStdHandler) AND LevelInfo = LevelInfo" by (rule New_passes_Info)
  have q: "pool_inv (New newStdHandler)" by (rule pool_inv_New)
  have c: "colorStart (New newStdHandler) LevelInfo = GREEN" "colorStop (New newStdHandler) LevelInfo = NONE"
    "levelName LevelInfo = ''INFO''"
    by (simp_all add: colorStart_def colorStop_def levelName_def Level_defs)
  have n: "snd (popBuf (New newStdHandler)) = New newStdHandler"
    "\<And>buf. chan_send buf (msg (New newStdHandler)) = \<lparr>queue = [buf], sendq = []\<rparr>"
    by (simp_all add: popBuf_def New_def chan_send_def make_chan_def msgCap_def)
  from Output_record [OF p q, of "\<lparr>now = ''2024/01/02 03:04:05'', Caller = map_of [(2, (''/src/app/main.go'', 42))]\<rparr>"
      False 2 "''hi''"]
  show ?thesis
    using p q by (simp add: c n call_site_ex decimal_42 del: shortFile.simps) blast
qed

text \<open>
  C5 as worded, for every rendered record, fails for a call with \<open>ln\<close> true: the
  record is not the one the specification describes.
\<close>

theorem Output_record_counterexample:
  "map data (pending (Output \<lparr>now = ''2024/01/02 03:04:05'', Caller = map_of [(2, (''/src/app/main.go'', 42))]\<rparr>
              True 2 LevelInfo ''hi'' (New newStdHandler)))
     = [CHR 0x1B # ''[1A2024/01/02 03:04:05 - '' @ GREEN @ ''INFO'' @ NONE
          @ '' - main.go:[42] - hi'' @ CHR 0x1B # ''[K'' @ [CHR 0x0A]]
   \<and> map data (pending (Output \<lparr>now = ''2024/01/02 03:04:05'', Caller = map_of [(2, (''/src/app/main.go'', 42))]\<rparr>
              True 2 LevelInfo ''hi'' (New newStdHandler)))
     \<noteq> [spec_record ''2024/01/02 03:04:05'' (GREEN @ ''INFO'' @ NONE) ''main.go'' ''42'' ''hi'']"
proof -
  have c: "colorStart (New newStdHandler) LevelInfo = GREEN" "colorStop (New newStdHandler) LevelInfo = NONE"
    "levelName LevelInfo = ''INFO''"
    by (simp_all add: colorStart_def colorStop_def levelName_def Level_defs)
  have n: "snd (popBuf (New newStdHandler)) = New newStdHandler"
    "data (fst (popBuf (New newStdHandler))) = []"
    "\<And>buf. chan_send buf (msg (New newStdHandler)) = \<lparr>queue = [buf], sendq = []\<rparr>"
    by (simp_all add: popBuf_def New_def chan_send_def make_chan_def msgCap_def)
  from Output_pass [OF New_passes_Info [of newStdHandler], where ln = True and cd = 2 and s = "''hi''"
      and env = "\<lparr>now = ''2024/01/02 03:04:05'', Caller = map_of [(2, (''/src/app/main.go'', 42))]\<rparr>"]
  obtain buf where
    "Output \<lparr>now = ''2024/01/02 03:04:05'', Caller = map_of [(2, (''/src/app/main.go'', 42))]\<rparr>
              True 2 LevelInfo ''hi'' (New newStdHandler) = (New newStdHandler)\<lparr>msg := \<lparr>queue = [buf], sendq = []\<rparr>\<rparr>"
    "data buf = CHR 0x1B # ''[1A2024/01/02 03:04:05 - '' @ GREEN @ ''INFO'' @ NONE
          @ '' - main.go:[42] - hi'' @ CHR 0x1B # ''[K'' @ [CHR 0x0A]"
    by (auto simp add: c n call_site_ex decimal_42 simp del: shortFile.simps)
  then show ?thesis
    by (simp add: pending_def spec_record_def GREEN_def NONE_def)
qed

subsection \<open>Close\<close>


lemma Close_running_eq:
  assumes "running l"
  shows "Close ps l =
           (case run ps (l\<lparr>closed := True, quit := Closed\<rparr>) of
              None \<Rightarrow> None
            | Some l2 \<Rightarrow> Some (Inr (l2\<lparr>quit := Nil, handler := handler_Close (handler l2)\<rparr>)))"
proof -
  let ?l1 = "l\<lparr>closed := True, quit := Closed\<rparr>"
  from assms have ok: "chan_ok (msg ?l1)" and w: "wg ?l1 = 1" and q: "quit ?l1 = Closed"
    by (simp_all add: running_def)
  have "wg_Wait ps ?l1 = run ps ?l1"
  proof (cases "run ps ?l1")
    case None
    with w show ?thesis by (simp add: wg_Wait_def dispatch_def)
  next
    case (Some l2)
    from run_result [OF Some ok] q w have "wg l2 = 0" by simp
    with Some w show ?thesis by (simp add: wg_Wait_def dispatch_def)
  qed
  with assms show ?thesis
    by (simp add: Close_def running_def Let_def)
qed

lemma Close_result:
  assumes "running l" and "Close ps l = Some r"
  shows "\<exists>l'. r = Inr l'
           \<and> written (handler l') = written (handler l) @ map data (pending l)
           \<and> pending l' = [] \<and> wg l' = 0 \<and> closed l' \<and> quit l' = Nil
           \<and> close_calls (handler l') = Suc (close_calls (handler l))
           \<and> level l' = level l"
proof -
  let ?l1 = "l\<lparr>closed := True, quit := Closed\<rparr>"
  from assms(1) have ok: "chan_ok (msg ?l1)" and w: "wg ?l1 = 1" and q: "quit ?l1 = Closed"
    by (simp_all add: running_def)
  from assms obtain l2 where r: "run ps ?l1 = Some l2"
    and l': "r = Inr (l2\<lparr>quit := Nil, handler := handler_Close (handler l2)\<rparr>)"
    by (auto simp add: Close_running_eq split: option.splits)
  from run_result [OF r ok] q w l' show ?thesis
    by (simp add: pending_def handler_Close_def)
qed

lemma Close_returns:
  assumes "running l" and "length (pending l) \<le> count_list ps PickMsg"
  shows "\<exists>l'. Close ps l = Some (Inr l')"
proof -
  let ?l1 = "l\<lparr>closed := True, quit := Closed\<rparr>"
  have "\<exists>l2. run ps ?l1 = Some l2"
    using assms(2) by (intro run_returns_closed) (simp_all add: pending_def)
  then show ?thesis
    by (auto simp add: Close_running_eq [OF assms(1)])
qed


lemma run_starved:
  "quit l = Closed \<Longrightarrow> queue (msg l) \<noteq> [] \<Longrightarrow> run (replicate n PickQuit) l = None"
  by (induction n) (simp_all add: run.simps [of _ l])

lemma Output_pending_length:
  assumes "level l AND lv = lv" and "chan_ok (msg l)"
  shows "length (pending (Output env ln cd lv s l)) = Suc (length (pending l))"
  using Output_pending [OF assms, of env ln cd s] by auto

lemma running_two_records:
  "running (Info env b (Info env a (New h)))"
  "length (pending (Info env b (Info env a (New h)))) = 2"
  "written (handler (Info env b (Info env a (New h)))) = written h"
  "close_calls (handler (Info env b (Info env a (New h)))) = close_calls h"
proof -
  have r1: "running (Info env a (New h))"
    unfolding Info_def by (intro Output_running running_New)
  then show "running (Info env b (Info env a (New h)))"
    unfolding Info_def by (rule Output_running)
  have p0: "length (pending (New h)) = 0"
    by (simp add: pending_def New_def make_chan_def)
  have p1: "length (pending (Info env a (New h))) = 1"
    using Output_pending_length [OF New_passes_Info, of h env False 2 a] running_New [of h] p0
    by (simp add: Info_def running_def)
  have "level (Info env a (New h)) AND LevelInfo = LevelInfo"
    by (simp add: Info_def Output_fields New_passes_Info)
  from Output_pending_length [OF this, of env False 2 b] r1 p1
  show "length (pending (Info env b (Info env a (New h)))) = 2"
    by (simp add: Info_def running_def)
  show "written (handler (Info env b (Info env a (New h)))) = written h"
    "close_calls (handler (Info env b (Info env a (New h)))) = close_calls h"
    by (simp_all add: Info_def Output_fields New_def)
qed

text \<open>
  C2. \<open>Close\<close> on a running logger that holds \<open>K\<close> records not yet written (those
  buffered in the channel, followed by those of senders parked on the full channel; no
  sender is parked when the producers are idle). Whenever \<open>Close\<close> returns, it returns
  normally, the handler has received exactly those \<open>K\<close> records, in order, after the
  writes it had before, the channel is empty and the dispatch goroutine has returned, so
  that it performs no write afterwards, not even of records emitted later. \<open>Close\<close>
  does return when the \<open>select\<close> of the dispatch loop chooses the receive at least
  \<open>K\<close> times (\<open>run_starved\<close>: it does not while the \<open>select\<close> keeps choosing the
  quit case).
\<close>

theorem Close_drains:
  assumes "running l"
  shows "(length (pending l) \<le> count_list ps PickMsg \<longrightarrow> (\<exists>l'. Close ps l = Some (Inr l')))
     \<and> (\<forall>r. Close ps l = Some r \<longrightarrow>
          (\<exists>l'. r = Inr l'
             \<and> written (handler l') = written (handler l) @ map data (pending l)
             \<and> length (written (handler l')) = length (written (handler l)) + length (pending l)
             \<and> pending l' = [] \<and> wg l' = 0
             \<and> (\<forall>ps'. dispatch ps' l' = Some l')
             \<and> (\<forall>ps' env ln cd lv s. \<exists>l''.
                   dispatch ps' (Output env ln cd lv s l') = Some l''
                   \<and> written (handler l'') = written (handler l'))))"
proof -
  have ret: "length (pending l) \<le> count_list ps PickMsg \<longrightarrow> (\<exists>l'. Close ps l = Some (Inr l'))"
    using assms by (auto intro: Close_returns)
  have res: "\<exists>l'. r = Inr l'
             \<and> written (handler l') = written (handler l) @ map data (pending l)
             \<and> length (written (handler l')) = length (written (handler l)) + length (pending l)
             \<and> pending l' = [] \<and> wg l' = 0
             \<and> (\<forall>ps'. dispatch ps' l' = Some l')
             \<and> (\<forall>ps' env ln cd lv s. \<exists>l''.
                   dispatch ps' (Output env ln cd lv s l') = Some l''
                   \<and> written (handler l'') = written (handler l'))"
    if "Close ps l = Some r" for r
  proof -
    from Close_result [OF assms that] obtain l' where
      l': "r = Inr l'" "written (handler l') = written (handler l) @ map data (pending l)"
        "pending l' = []" "wg l' = 0"
      by blast
    have "\<forall>ps' env ln cd lv s. \<exists>l''.
            dispatch ps' (Output env ln cd lv s l') = Some l''
            \<and> written (handler l'') = written (handler l')"
      using l'(4) by (simp add: dispatch_def Output_fields)
    with l' show ?thesis by (simp add: dispatch_dead)
  qed
  from ret res show ?thesis by blast
qed

theorem Close_drains_witness:
  "running (Info \<lparr>now = ''2024/01/02 03:04:05'', Caller = Map.empty\<rparr> ''second''
              (Info \<lparr>now = ''2024/01/02 03:04:05'', Caller = Map.empty\<rparr> ''first'' (New newStdHandler)))
   \<and> (\<exists>l'. Close [PickQuit, PickMsg, PickQuit, PickMsg]
              (Info \<lparr>now = ''2024/01/02 03:04:05'', Caller = Map.empty\<rparr> ''second''
                (Info \<lparr>now = ''2024/01/02 03:04:05'', Caller = Map.empty\<rparr> ''first'' (New newStdHandler)))
            = Some (Inr l')
          \<and> length (written (handler l')) = 2 \<and> pending l' = [] \<and> wg l' = 0)"
proof -
  let ?env = "\<lparr>now = ''2024/01/02 03:04:05'', Caller = Map.empty\<rparr>"
  let ?l = "Info ?env ''second'' (Info ?env ''first'' (New newStdHandler))"
  note f = running_two_records [of ?env "''second''" "''first''" newStdHandler]
  from Close_drains [OF f(1), of "[PickQuit, PickMsg, PickQuit, PickMsg]"] f
  show ?thesis
    by (auto simp add: newStdHandler_def NewStreamHandler_def)
qed





subsection \<open>Colours\<close>

lemma chan_send_New: "chan_send buf (msg (New h)) = \<lparr>queue = [buf], sendq = []\<rparr>"
  by (simp add: New_def chan_send_def make_chan_def msgCap_def)

lemma popBuf_New: "popBuf (New h) = (\<lparr>data = [], capacity = 1024\<rparr>, New h)"
  by (simp add: popBuf_def New_def)

text \<open>
  C6. The colour codes depend on the severity alone, not on the logger: Info starts with
  green, Warn with yellow, Error with red, each stopped by the reset code, and Debug has
  neither a start nor a stop code. In a record the start code comes directly before the
  severity label and the stop code directly after it: what precedes the start code
  (timestamp and separator) and what follows the stop code (separator, call site,
  message) are the same for every severity.
\<close>

theorem color_codes:
  "colorStart l LevelInfo = GREEN \<and> colorStart l LevelWarn = YELLOW
   \<and> colorStart l LevelError = RED \<and> colorStart l LevelDebug = []
   \<and> colorStop l LevelInfo = NONE \<and> colorStop l LevelWarn = NONE
   \<and> colorStop l LevelError = NONE \<and> colorStop l LevelDebug = []
   \<and> GREEN = CHR 0x1B # ''[0;32;32m'' \<and> YELLOW = CHR 0x1B # ''[1;33m''
   \<and> RED = CHR 0x1B # ''[0;32;31m'' \<and> NONE = CHR 0x1B # ''[m''
   \<and> (\<forall>l'. colorStart l' lv = colorStart l lv \<and> colorStop l' lv = colorStop l lv)
   \<and> (\<exists>pre post. \<forall>lv. level l AND lv = lv \<longrightarrow>
          (\<exists>buf. Output env ln cd lv s l = (snd (popBuf l))\<lparr>msg := chan_send buf (msg l)\<rparr>
             \<and> data buf = pre @ colorStart l lv @ levelName lv @ colorStop l lv @ post))"
proof -
  have tab: "colorStart l LevelInfo = GREEN \<and> colorStart l LevelWarn = YELLOW
   \<and> colorStart l LevelError = RED \<and> colorStart l LevelDebug = []
   \<and> colorStop l LevelInfo = NONE \<and> colorStop l LevelWarn = NONE
   \<and> colorStop l LevelError = NONE \<and> colorStop l LevelDebug = []"
    by (simp add: colorStart_def colorStop_def Level_defs)
  have codes: "GREEN = CHR 0x1B # ''[0;32;32m'' \<and> YELLOW = CHR 0x1B # ''[1;33m''
   \<and> RED = CHR 0x1B # ''[0;32;31m'' \<and> NONE = CHR 0x1B # ''[m''"
    by (simp add: GREEN_def YELLOW_def RED_def NONE_def)
  have indep: "\<forall>l'. colorStart l' lv = colorStart l lv \<and> colorStop l' lv = colorStop l lv"
    by (simp add: colorStart_def colorStop_def)
  let ?pre = "data (fst (popBuf l)) @ (if ln then CHR 0x1B # ''[1A'' else []) @ now env @ '' - ''"
  let ?post = "'' - '' @ fst (call_site (Caller env cd)) @ '':[''
             @ decimal (snd (call_site (Caller env cd))) @ '']'' @ '' - '' @ s
             @ (if ln then CHR 0x1B # ''[K'' else [])
             @ (if s = [] \<or> last s \<noteq> CHR 0x0A then [CHR 0x0A] else [])"
  have "\<exists>buf. Output env ln cd lv s l = (snd (popBuf l))\<lparr>msg := chan_send buf (msg l)\<rparr>
             \<and> data buf = ?pre @ colorStart l lv @ levelName lv @ colorStop l lv @ ?post"
    if "level l AND lv = lv" for lv
    using Output_pass [OF that, of env ln cd s] by (simp only: append_assoc)
  then have "\<exists>pre post. \<forall>lv. level l AND lv = lv \<longrightarrow>
          (\<exists>buf. Output env ln cd lv s l = (snd (popBuf l))\<lparr>msg := chan_send buf (msg l)\<rparr>
             \<and> data buf = pre @ colorStart l lv @ levelName lv @ colorStop l lv @ post)"
    by blast
  with tab codes indep show ?thesis by blast
qed

theorem color_codes_witness:
   "level (New newStdHandler) AND LevelInfo = LevelInfo
    \<and> (\<exists>pre post buf.
         Output \<lparr>now = ''2024/01/02 03:04:05'', Caller = Map.empty\<rparr> False 2 LevelInfo ''hi''
             (New newStdHandler)
           = (New newStdHandler)\<lparr>msg := \<lparr>queue = [buf], sendq = []\<rparr>\<rparr>
         \<and> data buf = pre @ GREEN @ ''INFO'' @ NONE @ post)"
proof -
  have p: "level (New newStdHandler) AND LevelInfo = LevelInfo" by (rule New_passes_Info)
  have n: "levelName LevelInfo = ''INFO''" by (simp add: levelName_def Level_defs)
  let ?env = "\<lparr>now = ''2024/01/02 03:04:05'', Caller = Map.empty\<rparr>"
  let ?l = "New newStdHandler"
  from color_codes [of ?l LevelInfo ?env False 2 "''hi''"]
  obtain pre post where
    pp: "\<forall>lv. level ?l AND lv = lv \<longrightarrow>
          (\<exists>buf. Output ?env False 2 lv ''hi'' ?l = (snd (popBuf ?l))\<lparr>msg := chan_send buf (msg ?l)\<rparr>
             \<and> data buf = pre @ colorStart ?l lv @ levelName lv @ colorStop ?l lv @ post)"
    and tab: "colorStart ?l LevelInfo = GREEN" "colorStop ?l LevelInfo = NONE"
    by blast
  from pp p obtain buf where
    "Output ?env False 2 LevelInfo ''hi'' ?l = (snd (popBuf ?l))\<lparr>msg := chan_send buf (msg ?l)\<rparr>"
    "data buf = pre @ colorStart ?l LevelInfo @ levelName LevelInfo @ colorStop ?l LevelInfo @ post"
    by blast
  then have "Output ?env False 2 LevelInfo ''hi'' ?l = ?l\<lparr>msg := \<lparr>queue = [buf], sendq = []\<rparr>\<rparr>
     \<and> data buf = pre @ GREEN @ ''INFO'' @ NONE @ post"
    by (simp add: chan_send_New popBuf_New tab n)
  with p show ?thesis by blast
qed

subsection \<open>The level of a new logger\<close>

lemma run_idle: "queue (msg l) = [] \<Longrightarrow> quit l \<noteq> Closed \<Longrightarrow> run ps l = Some l"
  by (simp add: run.simps [of ps l])

lemma dispatch_New: "dispatch ps (New h) = Some (New h)"
proof -
  have "run ps (New h) = Some (New h)"
    by (rule run_idle) (simp_all add: New_def make_chan_def)
  then show ?thesis by (simp add: dispatch_def)
qed

text \<open>
  C9. A logger returned by \<open>New\<close> has the level mask \<open>LevelInfo\<close>, which is 1. On
  it, \<open>Output\<close> at the severities Debug, Warn and Error, and the wrappers \<open>Debug\<close>,
  \<open>Warn\<close> and \<open>Error\<close>, return the logger unchanged, while at severity Info one
  record is enqueued, which the dispatch loop writes to the handler.
\<close>

theorem New_level_Info:
  "level (New h) = LevelInfo \<and> LevelInfo = 1
   \<and> Output env ln cd LevelDebug s (New h) = New h
   \<and> Output env ln cd LevelWarn s (New h) = New h
   \<and> Output env ln cd LevelError s (New h) = New h
   \<and> Debug env s (New h) = New h \<and> Warn env s (New h) = New h \<and> Error env s (New h) = New h
   \<and> (\<exists>buf. Output env ln cd LevelInfo s (New h) = (New h)\<lparr>msg := \<lparr>queue = [buf], sendq = []\<rparr>\<rparr>)
   \<and> (\<exists>buf. Info env s (New h) = (New h)\<lparr>msg := \<lparr>queue = [buf], sendq = []\<rparr>\<rparr>)
   \<and> (\<exists>l' r. dispatch ps (Info env s (New h)) = Some l'
          \<and> written (handler l') = written h @ [r])"
proof -
  have lv: "level (New h) = LevelInfo \<and> LevelInfo = 1"
    by (simp add: New_def LevelInfo_def)
  have no: "level (New h) AND LevelDebug \<noteq> LevelDebug" "level (New h) AND LevelWarn \<noteq> LevelWarn"
    "level (New h) AND LevelError \<noteq> LevelError"
    by (simp_all add: New_def Level_defs)
  have out: "\<exists>buf. Output env ln cd LevelInfo s (New h) = (New h)\<lparr>msg := \<lparr>queue = [buf], sendq = []\<rparr>\<rparr>"
    for ln cd
    using Output_pass_state [OF New_passes_Info [of h], where env = env and ln = ln and cd = cd and s = s]
    by (simp add: chan_send_New popBuf_New)
  have "\<exists>l1 l2 r. dispatch ps (New h) = Some l1 \<and> dispatch ps (Info env s (New h)) = Some l2
           \<and> written (handler l2) = written (handler l1) @ [r]"
    unfolding Info_def by (rule Output_once [OF New_passes_Info running_New])
  moreover have "dispatch ps (New h) = Some (New h)"
    by (rule dispatch_New)
  ultimately have disp: "\<exists>l' r. dispatch ps (Info env s (New h)) = Some l'
          \<and> written (handler l') = written h @ [r]"
    by (auto simp add: New_def)
  from lv no out [of ln cd] out [of False 2] disp show ?thesis
    by (simp add: Debug_def Warn_def Error_def Info_def Output_filtered)
qed

subsection \<open>The call site\<close>

lemma last_segment_snoc:
  "last_segment (xs @ [c]) = (if c = CHR ''/'' then [] else last_segment xs @ [c])"
  by (simp add: last_segment_def)

lemma shortFile_prefix:
  "n < length f \<Longrightarrow>
   shortFile f (int n) =
     (if CHR ''/'' \<in> set (tl (take (Suc n) f))
      then last_segment (take (Suc n) f) @ drop (Suc n) f
      else f)"
proof (induction n)
  case 0
  then show ?case by (cases f) simp_all
next
  case (Suc n)
  then have n: "n < length f" and sn: "Suc n < length f" by simp_all
  have tk: "take (Suc (Suc n)) f = take (Suc n) f @ [f ! Suc n]"
    using sn by (simp add: take_Suc_conv_app_nth)
  have ne: "take (Suc n) f \<noteq> []" using n by (cases f) simp_all
  have tl_tk: "tl (take (Suc (Suc n)) f) = tl (take (Suc n) f) @ [f ! Suc n]"
    using ne by (simp add: tk)
  have dr: "drop (Suc n) f = f ! Suc n # drop (Suc (Suc n)) f"
    using sn by (simp add: Cons_nth_drop_Suc)
  have step: "shortFile f (int (Suc n)) =
      (if f ! Suc n = CHR ''/'' then drop (Suc (Suc n)) f else shortFile f (int n))"
    by (subst shortFile.simps) (simp add: nat_add_distrib)
  show ?case
  proof (cases "f ! Suc n = CHR ''/''")
    case True
    then show ?thesis
      by (simp only: step tl_tk) (simp add: tk last_segment_snoc)
  next
    case False
    with Suc.IH [OF n] show ?thesis
      by (simp only: step tl_tk) (simp add: tk last_segment_snoc dr)
  qed
qed

lemma shortFile_eq:
  "shortFile f (int (length f) - 1) =
     (if CHR ''/'' \<in> set (tl f) then last_segment f else f)"
proof (cases f)
  case Nil
  then show ?thesis by simp
next
  case (Cons c cs)
  then have "int (length f) - 1 = int (length cs)" "length cs < length f" by simp_all
  with shortFile_prefix [of "length cs" f] Cons show ?thesis
    by (simp del: shortFile.simps)
qed

lemma shortFile_is_last_segment:
  "(shortFile f (int (length f) - 1) = last_segment f)
     = (\<not> (\<exists>rest. f = CHR ''/'' # rest \<and> CHR ''/'' \<notin> set rest))"
proof (cases f)
  case Nil
  then show ?thesis by (simp add: last_segment_def)
next
  case (Cons c cs)
  have a: "last_segment (c # cs) = last_segment cs" if "CHR ''/'' \<in> set cs"
    using that by (simp add: last_segment_def takeWhile_append1 [where x = "CHR ''/''"]) 
  have b: "last_segment (c # cs) = (if c = CHR ''/'' then cs else c # cs)" if "CHR ''/'' \<notin> set cs"
  proof -
    have "takeWhile (\<lambda>c. c \<noteq> CHR ''/'') (rev cs @ [c])
            = rev cs @ takeWhile (\<lambda>c. c \<noteq> CHR ''/'') [c]"
      by (rule takeWhile_append2) (use that in auto)
    then show ?thesis by (simp add: last_segment_def)
  qed
  show ?thesis
    unfolding shortFile_eq using Cons a b by (auto simp del: shortFile.simps)
qed

lemma call_site_None: "call_site None = (''???'', 0)"
  by (simp add: call_site_def)

lemma call_site_root: "call_site (Some (''/main.go'', 7)) = (''/main.go'', 7)"
  by (simp add: call_site_def)

lemma decimal_small: "decimal 7 = ''7''" "decimal 0 = ''0''"
  by (simp_all add: decimal_def AppendInt_def append_bytes_def)

lemma Info_New_record:
  "\<exists>buf. Info env s (New h) = (New h)\<lparr>msg := \<lparr>queue = [buf], sendq = []\<rparr>\<rparr>
     \<and> data buf = now env @ '' - '' @ GREEN @ ''INFO'' @ NONE @ '' - ''
           @ fst (call_site (Caller env 2)) @ '':['' @ decimal (snd (call_site (Caller env 2)))
           @ ''] - '' @ s @ (if s = [] \<or> last s \<noteq> CHR 0x0A then [CHR 0x0A] else [])"
proof -
  have c: "colorStart (New h) LevelInfo = GREEN" "colorStop (New h) LevelInfo = NONE"
    "levelName LevelInfo = ''INFO''"
    by (simp_all add: colorStart_def colorStop_def levelName_def Level_defs)
  from Output_pass [OF New_passes_Info [of h], where env = env and ln = False and cd = 2 and s = s]
  show ?thesis
    by (simp add: Info_def c chan_send_New popBuf_New)
qed

text \<open>
  C7. The call site of a record whose caller is resolved to the file \<open>/main.go\<close>,
  line 7: the loop of \<open>Output\<close> stops before index 0, so the only \<open>/\<close> of the path
  is not seen and the record names the file \<open>/main.go\<close>, where the final path segment
  is \<open>main.go\<close>. (By \<open>shortFile_is_last_segment\<close> these paths, whose only
  \<open>/\<close> is their first byte, are the only ones not reduced to their final segment; by
  \<open>call_site_None\<close> a failed resolution gives \<open>???\<close> and line 0.)
\<close>

theorem call_site_root_file:
  "call_site (Some (''/main.go'', 7)) = (''/main.go'', 7)
   \<and> last_segment ''/main.go'' = ''main.go''
   \<and> (\<exists>buf. Info \<lparr>now = ''2024/01/02 03:04:05'', Caller = map_of [(2, (''/main.go'', 7))]\<rparr>
                ''hi'' (New newStdHandler)
             = (New newStdHandler)\<lparr>msg := \<lparr>queue = [buf], sendq = []\<rparr>\<rparr>
          \<and> data buf = ''2024/01/02 03:04:05 - '' @ GREEN @ ''INFO'' @ NONE
                @ '' - /main.go:[7] - hi'' @ [CHR 0x0A])"
proof -
  have "last_segment ''/main.go'' = ''main.go''"
    by (simp add: last_segment_def)
  with call_site_root
    Info_New_record [of "\<lparr>now = ''2024/01/02 03:04:05'', Caller = map_of [(2, (''/main.go'', 7))]\<rparr>"
      "''hi''" newStdHandler]
  show ?thesis
    by (simp add: call_site_root decimal_small del: shortFile.simps)
qed

subsection \<open>Replacing the default logger\<close>

lemma Close_New:
  "Close ps (New h) = Some (Inr ((New h)\<lparr>quit := Nil, wg := 0, closed := True, handler := handler_Close h\<rparr>))"
proof -
  have r: "run ps ((New h)\<lparr>closed := True, quit := Closed\<rparr>)
          = Some (wg_Done ((New h)\<lparr>closed := True, quit := Closed\<rparr>))"
    by (subst run.simps) (simp add: New_def make_chan_def)
  show ?thesis
    unfolding Close_running_eq [OF running_New] r
    by (simp add: wg_Done_def New_def)
qed

lemma SetLogFile_error_keeps_closed:
  assumes "defLoger p = Some l" and "running l" and "length (pending l) \<le> count_list ps PickMsg"
    and "logFile \<noteq> []" and "mk logFile = (h, Some err)"
  shows "\<exists>l'. SetLogFile mk ps logFile p = Some (Inr (p\<lparr>defLoger := Some l', stdout := stdout p @ [err]\<rparr>))
           \<and> closed l' \<and> wg l' = 0"
proof -
  from Close_returns [OF assms(2,3)] obtain l' where c: "Close ps l = Some (Inr l')" ..
  from Close_result [OF assms(2) c] have "closed l'" "wg l' = 0" by auto
  with c assms(1,4,5) show ?thesis
    by (auto simp add: SetLogFile_def)
qed

text \<open>
  C8. \<open>SetLogFile\<close> on the initial default logger, with a file name for which the
  construction of the rotating-file handler fails: the call closes the default logger,
  prints the error and returns, so \<open>defLoger\<close> still is the closed logger, whose
  dispatch goroutine has returned; a record emitted on it afterwards is never written.
\<close>

theorem SetLogFile_failure:
  "SetLogFile failing_constructor [] ''/nonexistent/app.log'' init_Proc
     = Some (Inr \<lparr>defLoger = Some ((New newStdHandler)
                   \<lparr>quit := Nil, wg := 0, closed := True, handler := handler_Close newStdHandler\<rparr>),
                 stdout = [''open /nonexistent/app.log: no such file or directory'']\<rparr>)
   \<and> (\<forall>env s ps. \<exists>l'.
         dispatch ps (Info env s ((New newStdHandler)
             \<lparr>quit := Nil, wg := 0, closed := True, handler := handler_Close newStdHandler\<rparr>)) = Some l'
         \<and> written (handler l') = [])"
proof -
  have "SetLogFile failing_constructor [] ''/nonexistent/app.log'' init_Proc
     = Some (Inr \<lparr>defLoger = Some ((New newStdHandler)
                   \<lparr>quit := Nil, wg := 0, closed := True, handler := handler_Close newStdHandler\<rparr>),
                 stdout = [''open /nonexistent/app.log: no such file or directory'']\<rparr>)"
    by (simp add: SetLogFile_def init_Proc_def NewDefault_def Close_New failing_constructor_def)
  moreover have "\<forall>env s ps. \<exists>l'.
         dispatch ps (Info env s ((New newStdHandler)
             \<lparr>quit := Nil, wg := 0, closed := True, handler := handler_Close newStdHandler\<rparr>)) = Some l'
         \<and> written (handler l') = []"
    by (simp add: dispatch_def Info_def Output_fields handler_Close_def newStdHandler_def
          NewStreamHandler_def)
  ultimately show ?thesis by blast
qed

end
